theory Spec2Isabelle
  imports Main
begin

section \<open>Python values that the program handles\<close>

text \<open>
  The program works on the values that \<^verbatim>\<open>resp.json()\<close> and \<^verbatim>\<open>json.loads\<close> return:
  \<^verbatim>\<open>None\<close>, booleans, integers, floats, strings, lists and dictionaries with string keys.
  A string is a list of 8-bit characters (code points below 256). A float is identified
  by the text of its \<^verbatim>\<open>repr\<close>, which is all the program can observe of it. A dictionary
  is the list of its entries in insertion order; a key is looked up from the front.
\<close>

datatype json =
    JNull
  | JBool bool
  | JInt int
  | JFloat string
  | JStr string
  | JArr "json list"
  | JObj "(string \<times> json) list"

text \<open>The exceptions that the modelled code can raise, by class.\<close>

datatype error =
    KeyError string
  | TypeError
  | AttributeError
  | ValueError
  | IndexError
  | RequestException
  | OSError

text \<open>Truth value of a Python object, as \<^verbatim>\<open>if x:\<close> and \<^verbatim>\<open>while x\<close> test it.\<close>

fun truthy :: "json \<Rightarrow> bool" where
  "truthy JNull = False"
| "truthy (JBool b) = b"
| "truthy (JInt n) = (n \<noteq> 0)"
| "truthy (JFloat r) = (r \<noteq> ''0.0'' \<and> r \<noteq> ''-0.0'')"
| "truthy (JStr s) = (s \<noteq> [])"
| "truthy (JArr xs) = (xs \<noteq> [])"
| "truthy (JObj kvs) = (kvs \<noteq> [])"

text \<open>\<^verbatim>\<open>obj[key]\<close> with a string key: only a dictionary can be subscripted by a string.\<close>

fun py_getitem :: "json \<Rightarrow> string \<Rightarrow> error + json" where
  "py_getitem (JObj kvs) k = (case map_of kvs k of None \<Rightarrow> Inl (KeyError k) | Some v \<Rightarrow> Inr v)"
| "py_getitem _ k = Inl TypeError"

text \<open>\<^verbatim>\<open>obj.get(key, default)\<close>: only a dictionary has the method.\<close>

fun py_get :: "json \<Rightarrow> string \<Rightarrow> json \<Rightarrow> error + json" where
  "py_get (JObj kvs) k d = (case map_of kvs k of None \<Rightarrow> Inr d | Some v \<Rightarrow> Inr v)"
| "py_get _ k d = Inl AttributeError"

text \<open>\<^verbatim>\<open>obj.keys()\<close>.\<close>

fun py_keys :: "json \<Rightarrow> error + string list" where
  "py_keys (JObj kvs) = Inr (map fst kvs)"
| "py_keys _ = Inl AttributeError"

text \<open>
  The elements that \<^verbatim>\<open>for x in obj\<close> visits: the elements of a list, the keys of a
  dictionary, the characters of a string; anything else is not iterable.
\<close>

fun py_iter :: "json \<Rightarrow> error + json list" where
  "py_iter (JArr xs) = Inr xs"
| "py_iter (JObj kvs) = Inr (map (\<lambda>kv. JStr (fst kv)) kvs)"
| "py_iter (JStr s) = Inr (map (\<lambda>c. JStr [c]) s)"
| "py_iter _ = Inl TypeError"

section \<open>String operations\<close>

text \<open>\<^verbatim>\<open>s.split(c)\<close> for a one-character separator: never empty, \<^verbatim>\<open>''.split('/') == ['']\<close>.\<close>

fun split :: "char \<Rightarrow> string \<Rightarrow> string list" where
  "split c [] = [[]]"
| "split c (x # xs) =
     (if x = c then [] # split c xs
      else (case split c xs of [] \<Rightarrow> [[x]] | w # ws \<Rightarrow> (x # w) # ws))"

text \<open>\<^verbatim>\<open>sep.join(parts)\<close>.\<close>

fun join :: "string \<Rightarrow> string list \<Rightarrow> string" where
  "join sep [] = []"
| "join sep [p] = p"
| "join sep (p # q # ps) = p @ sep @ join sep (q # ps)"

text \<open>\<^verbatim>\<open>s.replace(a, b)\<close> for one-character \<^verbatim>\<open>a\<close> and \<^verbatim>\<open>b\<close>.\<close>

definition replace :: "char \<Rightarrow> char \<Rightarrow> string \<Rightarrow> string" where
  "replace a b s = map (\<lambda>c. if c = a then b else c) s"

section \<open>The filename taken from a URL\<close>

text \<open>
  \<^verbatim>\<open>
  def get_name_from_url(url: str) -> str:
      parts = url.split('/')
      return '_'.join(parts[3:]).replace('-', '_')
  \<close>
  A value that is not a string has no \<^verbatim>\<open>split\<close>.
\<close>

fun get_name_from_url :: "json \<Rightarrow> error + string" where
  "get_name_from_url (JStr url) =
     (let parts = split (CHR ''/'') url
      in Inr (replace (CHR ''-'') (CHR ''_'') (join ''_'' (drop 3 parts))))"
| "get_name_from_url _ = Inl AttributeError"

section \<open>Text of a value\<close>

text \<open>Decimal digits of a natural number, as \<^verbatim>\<open>str(n)\<close> prints them.\<close>

function dec_nat :: "nat \<Rightarrow> string" where
  "dec_nat n =
     (if n < 10 then [''0123456789'' ! n]
      else dec_nat (n div 10) @ [''0123456789'' ! (n mod 10)])"
  by pat_completeness auto
termination
  by (relation "measure id") auto

declare dec_nat.simps [simp del]

definition dec_int :: "int \<Rightarrow> string" where
  "dec_int i = (if i < 0 then CHR ''-'' # dec_nat (nat (- i)) else dec_nat (nat i))"

definition hex2 :: "nat \<Rightarrow> string" where
  "hex2 n = [''0123456789abcdef'' ! (n div 16), ''0123456789abcdef'' ! (n mod 16)]"

text \<open>
  \<^verbatim>\<open>str.isprintable\<close> on the code points below 256: the ASCII control characters, DEL,
  the C1 controls, the no-break space and the soft hyphen are not printable.
\<close>

definition printable :: "char \<Rightarrow> bool" where
  "printable c = (let n = (of_char c :: nat) in (32 \<le> n \<and> n < 127) \<or> (161 \<le> n \<and> n \<noteq> 173))"

text \<open>One character inside \<^verbatim>\<open>repr\<close> of a string that is quoted with \<open>q\<close>.\<close>

definition repr_char :: "char \<Rightarrow> char \<Rightarrow> string" where
  "repr_char q c =
     (if c = q \<or> c = CHR 0x5C then [CHR 0x5C, c]
      else if c = CHR 0x09 then [CHR 0x5C, CHR ''t'']
      else if c = CHR 0x0A then [CHR 0x5C, CHR ''n'']
      else if c = CHR 0x0D then [CHR 0x5C, CHR ''r'']
      else if printable c then [c]
      else CHR 0x5C # CHR ''x'' # hex2 (of_char c))"

text \<open>\<^verbatim>\<open>repr\<close> of a string: double quotes only when it has a single quote and no double quote.\<close>

definition repr_str :: "string \<Rightarrow> string" where
  "repr_str s =
     (let q = (if CHR 0x27 \<in> set s \<and> CHR 0x22 \<notin> set s then CHR 0x22 else CHR 0x27)
      in q # concat (map (repr_char q) s) @ [q])"

fun py_repr :: "json \<Rightarrow> string" where
  "py_repr JNull = ''None''"
| "py_repr (JBool b) = (if b then ''True'' else ''False'')"
| "py_repr (JInt i) = dec_int i"
| "py_repr (JFloat r) = r"
| "py_repr (JStr s) = repr_str s"
| "py_repr (JArr xs) = ''['' @ join '', '' (map py_repr xs) @ '']''"
| "py_repr (JObj kvs) =
     ''{'' @ join '', '' (map (\<lambda>kv. repr_str (fst kv) @ '': '' @ py_repr (snd kv)) kvs) @ ''}''"

text \<open>What an f-string puts for \<^verbatim>\<open>{x}\<close>: a string as it is, any other value as \<^verbatim>\<open>str(x)\<close>.\<close>

fun py_str :: "json \<Rightarrow> string" where
  "py_str (JStr s) = s"
| "py_str v = py_repr v"

section \<open>Dates and times\<close>

text \<open>A naive \<^verbatim>\<open>datetime.datetime\<close>.\<close>

record datetime =
  year :: nat
  month :: nat
  day :: nat
  hour :: nat
  minute :: nat
  second :: nat
  microsecond :: nat

definition is_leap :: "nat \<Rightarrow> bool" where
  "is_leap y = (y mod 4 = 0 \<and> (y mod 100 \<noteq> 0 \<or> y mod 400 = 0))"

definition days_in_month :: "nat \<Rightarrow> nat \<Rightarrow> nat" where
  "days_in_month y m =
     (if m = 2 then (if is_leap y then 29 else 28)
      else if m = 4 \<or> m = 6 \<or> m = 9 \<or> m = 11 then 30 else 31)"

text \<open>The constructor \<^verbatim>\<open>datetime(y, m, d, H, M, S, us)\<close>, which checks every field.\<close>

definition make_datetime ::
  "nat \<Rightarrow> nat \<Rightarrow> nat \<Rightarrow> nat \<Rightarrow> nat \<Rightarrow> nat \<Rightarrow> nat \<Rightarrow> error + datetime" where
  "make_datetime y m d H M S us =
     (if 1 \<le> y \<and> y \<le> 9999 \<and> 1 \<le> m \<and> m \<le> 12 \<and> 1 \<le> d \<and> d \<le> days_in_month y m
         \<and> H \<le> 23 \<and> M \<le> 59 \<and> S \<le> 59 \<and> us \<le> 999999
      then Inr \<lparr>year = y, month = m, day = d, hour = H, minute = M, second = S, microsecond = us\<rparr>
      else Inl ValueError)"

text \<open>Two naive datetimes compare as the tuples of their fields, the year first.\<close>

fun lex_less :: "nat list \<Rightarrow> nat list \<Rightarrow> bool" where
  "lex_less (a # as) (b # bs) = (a < b \<or> (a = b \<and> lex_less as bs))"
| "lex_less _ _ = False"

definition datetime_fields :: "datetime \<Rightarrow> nat list" where
  "datetime_fields t = [year t, month t, day t, hour t, minute t, second t, microsecond t]"

definition later :: "datetime \<Rightarrow> datetime \<Rightarrow> bool" where
  "later a b = lex_less (datetime_fields b) (datetime_fields a)"

subsection \<open>Parsing\<close>

text \<open>
  \<^verbatim>\<open>datetime.strptime\<close> compiles the format into a regular expression, matched without
  regard to case from the start of the text, and refuses text that the match leaves over.
  The directives of the two formats of the program are, in CPython 3.11,
  \<^verbatim>\<open>
  %Y  \d\d\d\d                               %H  2[0-3]|[0-1]\d|\d
  %m  1[0-2]|0[1-9]|[1-9]                    %M  [0-5]\d|\d
  %d  3[0-1]|[1-2]\d|0[1-9]|[1-9]| [1-9]     %S  6[0-1]|[0-5]\d|\d
  %b  jan|feb|...|dec                        %f  [0-9]{1,6}
  \<close>
  No field can hold the character that follows it in the format, so a field is the text
  before the first such character.
\<close>

definition is_digit :: "char \<Rightarrow> bool" where
  "is_digit c = (c \<in> set ''0123456789'')"

definition is_digit19 :: "char \<Rightarrow> bool" where
  "is_digit19 c = (c \<in> set ''123456789'')"

fun re_Y :: "string \<Rightarrow> bool" where
  "re_Y [a, b, c, d] = (is_digit a \<and> is_digit b \<and> is_digit c \<and> is_digit d)"
| "re_Y _ = False"

fun re_m :: "string \<Rightarrow> bool" where
  "re_m [a, b] = ((a = CHR ''1'' \<and> b \<in> set ''012'') \<or> (a = CHR ''0'' \<and> is_digit19 b))"
| "re_m [a] = is_digit19 a"
| "re_m _ = False"

fun re_d :: "string \<Rightarrow> bool" where
  "re_d [a, b] =
     ((a = CHR ''3'' \<and> b \<in> set ''01'') \<or> (a \<in> set ''12'' \<and> is_digit b)
      \<or> (a = CHR ''0'' \<and> is_digit19 b) \<or> (a = CHR '' '' \<and> is_digit19 b))"
| "re_d [a] = is_digit19 a"
| "re_d _ = False"

fun re_H :: "string \<Rightarrow> bool" where
  "re_H [a, b] = ((a = CHR ''2'' \<and> b \<in> set ''0123'') \<or> (a \<in> set ''01'' \<and> is_digit b))"
| "re_H [a] = is_digit a"
| "re_H _ = False"

fun re_M :: "string \<Rightarrow> bool" where
  "re_M [a, b] = (a \<in> set ''012345'' \<and> is_digit b)"
| "re_M [a] = is_digit a"
| "re_M _ = False"

fun re_S :: "string \<Rightarrow> bool" where
  "re_S [a, b] = ((a = CHR ''6'' \<and> b \<in> set ''01'') \<or> (a \<in> set ''012345'' \<and> is_digit b))"
| "re_S [a] = is_digit a"
| "re_S _ = False"

definition re_f :: "string \<Rightarrow> bool" where
  "re_f s = (1 \<le> length s \<and> length s \<le> 6 \<and> list_all is_digit s)"

text \<open>\<^verbatim>\<open>str.lower\<close> on the ASCII letters, the only ones that a month name can match.\<close>

definition lower :: "char \<Rightarrow> char" where
  "lower c =
     (case map_of (zip ''ABCDEFGHIJKLMNOPQRSTUVWXYZ'' ''abcdefghijklmnopqrstuvwxyz'') c of
        None \<Rightarrow> c
      | Some l \<Rightarrow> l)"

text \<open>The abbreviated month names of the C locale, with the empty entry that the library puts first.\<close>

definition a_month :: "string list" where
  "a_month = [[], ''jan'', ''feb'', ''mar'', ''apr'', ''may'', ''jun'',
              ''jul'', ''aug'', ''sep'', ''oct'', ''nov'', ''dec'']"

definition re_b :: "string \<Rightarrow> bool" where
  "re_b s = (map lower s \<in> set (tl a_month))"

text \<open>\<^verbatim>\<open>list.index\<close>, for an element that is in the list.\<close>

fun index :: "'a list \<Rightarrow> 'a \<Rightarrow> nat" where
  "index [] y = 0"
| "index (x # xs) y = (if x = y then 0 else Suc (index xs y))"

text \<open>\<^verbatim>\<open>int(s)\<close> for digits after optional blanks.\<close>

definition py_int :: "string \<Rightarrow> nat" where
  "py_int s =
     foldl (\<lambda>a c. 10 * a + (of_char c - 48)) 0 (dropWhile (\<lambda>c. c = CHR '' '') s)"

text \<open>
  The text before the first character of \<open>ds\<close>, and the text after that character;
  without such a character the text does not match the format.
\<close>

definition cut_at :: "string \<Rightarrow> string \<Rightarrow> error + (string \<times> string)" where
  "cut_at ds s =
     (case dropWhile (\<lambda>c. c \<notin> set ds) s of
        [] \<Rightarrow> Inl ValueError
      | _ # rest \<Rightarrow> Inr (takeWhile (\<lambda>c. c \<notin> set ds) s, rest))"

text \<open>Sequencing of steps that may raise: the first exception ends the computation.\<close>

definition bind :: "error + 'a \<Rightarrow> ('a \<Rightarrow> error + 'b) \<Rightarrow> error + 'b" where
  "bind r f = (case r of Inl e \<Rightarrow> Inl e | Inr x \<Rightarrow> f x)"

text \<open>\<^verbatim>\<open>datetime.strptime(s, '%Y-%m-%dT%H:%M:%S.%fZ')\<close> on a string.\<close>

definition strptime_time :: "string \<Rightarrow> error + datetime" where
  "strptime_time s =
     bind (cut_at ''-'' s) (\<lambda>(Y, s1).
     bind (cut_at ''-'' s1) (\<lambda>(m, s2).
     bind (cut_at ''Tt'' s2) (\<lambda>(d, s3).
     bind (cut_at '':'' s3) (\<lambda>(H, s4).
     bind (cut_at '':'' s4) (\<lambda>(M, s5).
     bind (cut_at ''.'' s5) (\<lambda>(S, s6).
     bind (cut_at ''Zz'' s6) (\<lambda>(f, s7).
       if s7 = [] \<and> re_Y Y \<and> re_m m \<and> re_d d \<and> re_H H \<and> re_M M \<and> re_S S \<and> re_f f
       then make_datetime (py_int Y) (py_int m) (py_int d) (py_int H) (py_int M) (py_int S)
              (py_int (f @ replicate (6 - length f) (CHR ''0'')))
       else Inl ValueError)))))))"

text \<open>\<^verbatim>\<open>datetime.strptime(s, '%d-%b-%Y')\<close> on a string.\<close>

definition strptime_date :: "string \<Rightarrow> error + datetime" where
  "strptime_date s =
     bind (cut_at ''-'' s) (\<lambda>(d, s1).
     bind (cut_at ''-'' s1) (\<lambda>(b, Y).
       if re_d d \<and> re_b b \<and> re_Y Y
       then make_datetime (py_int Y) (index a_month (map lower b)) (py_int d) 0 0 0 0
       else Inl ValueError))"

text \<open>\<^verbatim>\<open>strptime\<close> takes a string only.\<close>

fun strptime_item :: "json \<Rightarrow> error + datetime" where
  "strptime_item (JStr s) = strptime_time s"
| "strptime_item _ = Inl TypeError"

subsection \<open>Formatting\<close>

definition pad2 :: "nat \<Rightarrow> string" where
  "pad2 n = (if n < 10 then CHR ''0'' # dec_nat n else dec_nat n)"

text \<open>
  \<^verbatim>\<open>t.strftime('%m-%d-%Y')\<close>: month and day on two digits; the year as the C library
  of Linux prints it under CPython 3.11, with no leading zeros.
\<close>

definition strftime :: "datetime \<Rightarrow> string" where
  "strftime t = pad2 (month t) @ ''-'' @ pad2 (day t) @ ''-'' @ dec_nat (year t)"

section \<open>The resolver\<close>

text \<open>The global \<^verbatim>\<open>DESTINATION\<close> of the program.\<close>

definition DESTINATION :: string where
  "DESTINATION = ''./classdojo_output''"

text \<open>\<^verbatim>\<open>x.replace('/', '_')\<close>: only a string has the method.\<close>

fun py_replace :: "char \<Rightarrow> char \<Rightarrow> json \<Rightarrow> error + string" where
  "py_replace a b (JStr s) = Inr (replace a b s)"
| "py_replace a b _ = Inl AttributeError"

text \<open>
  The body of the inner loop of \<^verbatim>\<open>get_urls\<close>, for one attachment; \<open>dest\<close> stands for
  the global \<^verbatim>\<open>DESTINATION\<close>. It returns the pair that the code appends to \<^verbatim>\<open>urls\<close>.
  \<^verbatim>\<open>
  url = attachment['path']
  if 'metadata' in attachment.keys() and 'filename' in attachment['metadata'].keys():
      filename = attachment['metadata']['filename']
  else:
      filename = get_name_from_url(url)
  urls.append((url, f'{DESTINATION}/{group}/{dt_str}-{filename}'))
  \<close>
\<close>

definition get_urls_attachment ::
  "string \<Rightarrow> string \<Rightarrow> string \<Rightarrow> json \<Rightarrow> error + (json \<times> string)" where
  "get_urls_attachment dest grp dt_str attachment =
     bind (py_getitem attachment ''path'') (\<lambda>url.
     bind (py_keys attachment) (\<lambda>ks.
     bind (if ''metadata'' \<in> set ks
           then bind (py_getitem attachment ''metadata'') (\<lambda>metadata.
                bind (py_keys metadata) (\<lambda>mks. Inr (''filename'' \<in> set mks)))
           else Inr False) (\<lambda>has_filename.
     bind (if has_filename
           then bind (py_getitem attachment ''metadata'') (\<lambda>metadata.
                py_getitem metadata ''filename'')
           else bind (get_name_from_url url) (\<lambda>name. Inr (JStr name))) (\<lambda>filename.
     Inr (url, dest @ ''/'' @ grp @ ''/'' @ dt_str @ ''-'' @ py_str filename)))))"

text \<open>The inner loop: \<^verbatim>\<open>for attachment in attachments\<close>, appending to \<open>urls\<close>.\<close>

fun get_urls_attachments ::
  "string \<Rightarrow> string \<Rightarrow> string \<Rightarrow> json list \<Rightarrow> (json \<times> string) list
     \<Rightarrow> error + (json \<times> string) list" where
  "get_urls_attachments dest grp dt_str [] urls = Inr urls"
| "get_urls_attachments dest grp dt_str (attachment # rest) urls =
     bind (get_urls_attachment dest grp dt_str attachment) (\<lambda>task.
     get_urls_attachments dest grp dt_str rest (urls @ [task]))"

text \<open>
  The body of the outer loop, for one item. The cutoff \<open>dt\<close> is \<open>None\<close> when
  \<^verbatim>\<open>after_date\<close> is false, so that \<^verbatim>\<open>not after_date or (dt_item > dt)\<close> is the test below.
  \<^verbatim>\<open>
  dt_item = datetime.strptime(item['time'], '%Y-%m-%dT%H:%M:%S.%fZ')
  dt_str = dt_item.strftime('%m-%d-%Y')
  if not after_date or (dt_item > dt):
      if attachments := item['contents'].get('attachments', {}):
          group = item['headerSubtext'].replace('/', '_')
          for attachment in attachments:
              ...
  \<close>
\<close>

definition get_urls_item ::
  "string \<Rightarrow> datetime option \<Rightarrow> json \<Rightarrow> (json \<times> string) list
     \<Rightarrow> error + (json \<times> string) list" where
  "get_urls_item dest dt item urls =
     bind (py_getitem item ''time'') (\<lambda>tm.
     bind (strptime_item tm) (\<lambda>dt_item.
       let dt_str = strftime dt_item in
       if (case dt of None \<Rightarrow> True | Some c \<Rightarrow> later dt_item c) then
         bind (py_getitem item ''contents'') (\<lambda>contents.
         bind (py_get contents ''attachments'' (JObj [])) (\<lambda>attachments.
           if truthy attachments then
             bind (py_getitem item ''headerSubtext'') (\<lambda>header.
             bind (py_replace (CHR ''/'') (CHR ''_'') header) (\<lambda>grp.
             bind (py_iter attachments) (\<lambda>atts.
             get_urls_attachments dest grp dt_str atts urls)))
           else Inr urls))
       else Inr urls))"

text \<open>The outer loop: \<^verbatim>\<open>for item in items\<close>.\<close>

fun get_urls_items ::
  "string \<Rightarrow> datetime option \<Rightarrow> json list \<Rightarrow> (json \<times> string) list
     \<Rightarrow> error + (json \<times> string) list" where
  "get_urls_items dest dt [] urls = Inr urls"
| "get_urls_items dest dt (item # rest) urls =
     bind (get_urls_item dest dt item urls) (\<lambda>urls'. get_urls_items dest dt rest urls')"

text \<open>
  \<^verbatim>\<open>get_urls(items, after_date)\<close>. The cutoff is parsed first, when \<^verbatim>\<open>after_date\<close> is
  neither \<^verbatim>\<open>None\<close> nor the empty string.
  \<^verbatim>\<open>
  urls = []
  if after_date:
      dt = datetime.strptime(after_date, '%d-%b-%Y')
  for item in items:
      ...
  return urls
  \<close>
\<close>

definition get_urls :: "string \<Rightarrow> json \<Rightarrow> string option \<Rightarrow> error + (json \<times> string) list" where
  "get_urls dest items after_date =
     bind (case after_date of
             None \<Rightarrow> Inr None
           | Some a \<Rightarrow> if a = [] then Inr None else bind (strptime_date a) (\<lambda>dt. Inr (Some dt)))
       (\<lambda>dt.
     bind (py_iter items) (\<lambda>its. get_urls_items dest dt its []))"

text \<open>
  The time of an item, as the first two lines of the loop body compute it:
  \<^verbatim>\<open>datetime.strptime(item['time'], '%Y-%m-%dT%H:%M:%S.%fZ')\<close>.
\<close>

definition item_time :: "json \<Rightarrow> error + datetime" where
  "item_time item = bind (py_getitem item ''time'') strptime_item"

text \<open>An item is dropped by the cutoff \<open>dt\<close> when its time is read and is not later than \<open>dt\<close>.\<close>

definition dropped :: "datetime \<Rightarrow> json \<Rightarrow> bool" where
  "dropped dt item = (case item_time item of Inl e \<Rightarrow> False | Inr t \<Rightarrow> \<not> later t dt)"

text \<open>
  What the specification calls keeping an item: the part of the loop body under the date
  test, for an item whose time is \<open>t\<close>.
  \<^verbatim>\<open>
  if attachments := item['contents'].get('attachments', {}):
      group = item['headerSubtext'].replace('/', '_')
      for attachment in attachments:
          ...
  \<close>
\<close>

definition keep_item ::
  "string \<Rightarrow> datetime \<Rightarrow> json \<Rightarrow> (json \<times> string) list \<Rightarrow> error + (json \<times> string) list" where
  "keep_item dest t item urls =
     bind (py_getitem item ''contents'') (\<lambda>contents.
     bind (py_get contents ''attachments'' (JObj [])) (\<lambda>attachments.
       if truthy attachments then
         bind (py_getitem item ''headerSubtext'') (\<lambda>header.
         bind (py_replace (CHR ''/'') (CHR ''_'') header) (\<lambda>grp.
         bind (py_iter attachments) (\<lambda>atts.
         get_urls_attachments dest grp (strftime t) atts urls)))
       else Inr urls))"

text \<open>
  Keeping every item of a list, in order: the time of each item is read, then the item is
  kept. This is the resolver of the specification when no item is dropped.
\<close>

fun keep_items ::
  "string \<Rightarrow> json list \<Rightarrow> (json \<times> string) list \<Rightarrow> error + (json \<times> string) list" where
  "keep_items dest [] urls = Inr urls"
| "keep_items dest (item # rest) urls =
     bind (item_time item) (\<lambda>t.
     bind (keep_item dest t item urls) (\<lambda>urls'. keep_items dest rest urls'))"

section \<open>The remote service\<close>

text \<open>
  What \<^verbatim>\<open>requests.get\<close> returns: the status, the body, and what \<^verbatim>\<open>resp.json()\<close> gives
  for the body, a value or the exception of the decoder. The program never reads the status.
\<close>

record response =
  status_code :: nat
  content :: string
  json_body :: "error + json"

text \<open>
  The service answers a URL with a response, or the request raises. It is taken not to
  change during a run. The credentials are the same in every request and are left out.
\<close>

type_synonym http = "string \<Rightarrow> error + response"

text \<open>
  \<^verbatim>\<open>requests.get(url, cookies=SESSION_COOKIES)\<close>. A value that is not a string is turned into
  text that has no scheme \<^verbatim>\<open>requests\<close> knows, and the request raises.
\<close>

fun requests_get :: "http \<Rightarrow> json \<Rightarrow> error + response" where
  "requests_get http (JStr url) = http url"
| "requests_get http _ = Inl RequestException"

text \<open>
  \<^verbatim>\<open>
  def get_items(url):
      resp = requests.get(url, cookies=SESSION_COOKIES)
      data = resp.json()
      prev = data.get('_links', {}).get('prev', {}).get('href')
      return data['_items'], prev
  \<close>
\<close>

text \<open>The cursor of a page: \<^verbatim>\<open>data.get('_links', {}).get('prev', {}).get('href')\<close>.\<close>

definition prev_link :: "json \<Rightarrow> error + json" where
  "prev_link data =
     bind (py_get data ''_links'' (JObj [])) (\<lambda>links.
     bind (py_get links ''prev'' (JObj [])) (\<lambda>prev.
     py_get prev ''href'' JNull))"

definition get_items :: "http \<Rightarrow> json \<Rightarrow> error + (json \<times> json)" where
  "get_items http url =
     bind (requests_get http url) (\<lambda>resp.
     bind (json_body resp) (\<lambda>data.
     bind (prev_link data) (\<lambda>prev.
     bind (py_getitem data ''_items'') (\<lambda>items.
     Inr (items, prev)))))"

section \<open>The file system\<close>

text \<open>
  A \<^verbatim>\<open>pathlib.Path\<close> on POSIX: the anchor (empty for a relative path) and the components.
  The constructor drops the empty components and the components \<^verbatim>\<open>.\<close>; two leading slashes,
  and only two, are an anchor of their own.
\<close>

record path =
  anchor :: string
  parts :: "string list"

definition Path :: "string \<Rightarrow> path" where
  "Path s =
     \<lparr>anchor = (if take 2 s = ''//'' \<and> take 3 s \<noteq> ''///'' then ''//''
                else if take 1 s = ''/'' then ''/'' else []),
      parts = filter (\<lambda>p. p \<noteq> [] \<and> p \<noteq> ''.'') (split (CHR ''/'') s)\<rparr>"

text \<open>\<^verbatim>\<open>p.parents[0]\<close>: a path without components has no parent.\<close>

definition parent :: "path \<Rightarrow> error + path" where
  "parent p = (if parts p = [] then Inl IndexError else Inr (p\<lparr>parts := butlast (parts p)\<rparr>))"

text \<open>The paths above a path, from one component on, and then the path itself.\<close>

definition prefixes :: "path \<Rightarrow> path list" where
  "prefixes p = map (\<lambda>k. p\<lparr>parts := take k (parts p)\<rparr>) [1..<Suc (length (parts p))]"

text \<open>
  The place that a path names. The components are followed from the left, and \<^verbatim>\<open>..\<close> steps
  back to the directory above: above the root is the root, and the steps above the current
  directory are kept. There are no links.
\<close>

fun follow :: "bool \<Rightarrow> string list \<Rightarrow> string list \<Rightarrow> string list" where
  "follow absolute place [] = place"
| "follow absolute place (c # cs) =
     (if c = ''..'' then
        (if place = [] \<or> last place = ''..''
         then follow absolute (if absolute then place else place @ [''..'']) cs
         else follow absolute (butlast place) cs)
      else follow absolute (place @ [c]) cs)"

definition resolve :: "path \<Rightarrow> path" where
  "resolve p = p\<lparr>parts := follow (anchor p \<noteq> []) [] (parts p)\<rparr>"

text \<open>
  The state of the file system: the directories that were made and the content of every
  file, each under the place it is at. The root, the current directory and the directories
  above it are there from the start. No right is refused.
\<close>

record fs =
  dirs :: "path set"
  files :: "path \<Rightarrow> string option"

definition is_dir :: "fs \<Rightarrow> path \<Rightarrow> bool" where
  "is_dir s place = (list_all (\<lambda>c. c = ''..'') (parts place) \<or> place \<in> dirs s)"

text \<open>
  \<^verbatim>\<open>p.mkdir(parents=True, exist_ok=True)\<close>: from the top, every path above \<open>p\<close> and \<open>p\<close>
  itself is made a directory unless it is one; the call raises at the first of them that
  is a file, and the directories made before stay.
\<close>

fun mkdir_each :: "fs \<Rightarrow> path list \<Rightarrow> (error + unit) \<times> fs" where
  "mkdir_each s [] = (Inr (), s)"
| "mkdir_each s (q # qs) =
     (if files s (resolve q) \<noteq> None then (Inl OSError, s)
      else mkdir_each
             (if is_dir s (resolve q) then s else s\<lparr>dirs := insert (resolve q) (dirs s)\<rparr>) qs)"

definition mkdir :: "fs \<Rightarrow> path \<Rightarrow> (error + unit) \<times> fs" where
  "mkdir s p = mkdir_each s (prefixes p)"

text \<open>
  \<^verbatim>\<open>open(p, 'w')\<close> and \<^verbatim>\<open>open(p, 'wb')\<close>: the file is made, or emptied when it exists. The
  call raises when a path above \<open>p\<close> is not a directory, and when \<open>p\<close> names a directory.
\<close>

definition open_w :: "fs \<Rightarrow> path \<Rightarrow> error + fs" where
  "open_w s p =
     (if \<not> list_all (\<lambda>q. is_dir s (resolve q)) (butlast (prefixes p)) then Inl OSError
      else if is_dir s (resolve p) then Inl OSError
      else Inr (s\<lparr>files := (files s)(resolve p \<mapsto> [])\<rparr>))"

text \<open>\<^verbatim>\<open>f.write(data)\<close> on the open file, then closing it.\<close>

definition write_file :: "fs \<Rightarrow> path \<Rightarrow> string \<Rightarrow> fs" where
  "write_file s p txt =
     s\<lparr>files := (files s)(resolve p \<mapsto>
           (case files s (resolve p) of None \<Rightarrow> [] | Some old \<Rightarrow> old) @ txt)\<rparr>"

text \<open>\<^verbatim>\<open>open(p, 'r')\<close> and \<^verbatim>\<open>f.read()\<close>.\<close>

definition read_file :: "fs \<Rightarrow> path \<Rightarrow> error + string" where
  "read_file s p =
     (if \<not> list_all (\<lambda>q. is_dir s (resolve q)) (butlast (prefixes p)) then Inl OSError
      else (case files s (resolve p) of None \<Rightarrow> Inl OSError | Some txt \<Rightarrow> Inr txt))"

section \<open>The snapshot\<close>

text \<open>
  \<^verbatim>\<open>json.dumps(x, indent=4)\<close> and \<^verbatim>\<open>json.loads\<close> belong to the library; the functions that
  use them take them as \<open>dumps\<close> and \<open>loads\<close>. The result of a function that changes the
  file system is its value, or its exception, and the file system it leaves.
  \<^verbatim>\<open>
  def save_json(json_content, filename):
      filename.parents[0].mkdir(parents=True, exist_ok=True)
      with open(filename, 'w') as f:
          f.write(json.dumps(json_content, indent=4))
  \<close>
\<close>

definition save_json ::
  "(json \<Rightarrow> string) \<Rightarrow> json \<Rightarrow> path \<Rightarrow> fs \<Rightarrow> (error + unit) \<times> fs" where
  "save_json dumps json_content filename s =
     (case parent filename of
        Inl e \<Rightarrow> (Inl e, s)
      | Inr d \<Rightarrow>
          (case mkdir s d of
             (Inl e, s1) \<Rightarrow> (Inl e, s1)
           | (Inr u, s1) \<Rightarrow>
               (case open_w s1 filename of
                  Inl e \<Rightarrow> (Inl e, s1)
                | Inr s2 \<Rightarrow> (Inr (), write_file s2 filename (dumps json_content)))))"

text \<open>
  \<^verbatim>\<open>
  def load_json(filename):
      with open(filename, 'r') as f:
          items = json.loads(f.read())
      return items
  \<close>
\<close>

definition load_json :: "(string \<Rightarrow> error + json) \<Rightarrow> path \<Rightarrow> fs \<Rightarrow> error + json" where
  "load_json loads filename s = bind (read_file s filename) loads"

section \<open>The traverser\<close>

text \<open>
  \<^verbatim>\<open>items.extend(new_items)\<close>: only a list has the method, and the argument is iterated.
\<close>

fun py_extend :: "json \<Rightarrow> json \<Rightarrow> error + json" where
  "py_extend (JArr xs) new_items = bind (py_iter new_items) (\<lambda>ys. Inr (JArr (xs @ ys)))"
| "py_extend _ new_items = Inl AttributeError"

text \<open>
  The loop of \<^verbatim>\<open>scrape\<close>:
  \<^verbatim>\<open>
  while prev and feed_url != prev:
      new_items, prev = get_items(prev)
      items.extend(new_items)
  \<close>
  The first argument bounds the number of turns: the result is \<open>None\<close> when the loop has
  not ended within them. The last argument is the list of the URLs fetched so far, and the
  result has the list of all the URLs fetched, in the order of the requests.
\<close>

fun scrape_loop ::
  "nat \<Rightarrow> http \<Rightarrow> string \<Rightarrow> json \<Rightarrow> json \<Rightarrow> json list \<Rightarrow> ((error + json) \<times> json list) option"
where
  "scrape_loop n http feed_url items prev fetched =
     (if truthy prev \<and> JStr feed_url \<noteq> prev then
        (case n of
           0 \<Rightarrow> None
         | Suc k \<Rightarrow>
             (case get_items http prev of
                Inl e \<Rightarrow> Some (Inl e, fetched @ [prev])
              | Inr (new_items, prev') \<Rightarrow>
                  (case py_extend items new_items of
                     Inl e \<Rightarrow> Some (Inl e, fetched @ [prev])
                   | Inr items' \<Rightarrow>
                       scrape_loop k http feed_url items' prev' (fetched @ [prev]))))
      else Some (Inr items, fetched))"

text \<open>
  \<^verbatim>\<open>
  def scrape(feed_url, filename):
      items, prev = get_items(feed_url)
      while prev and feed_url != prev:
          ...
      save_json(items, filename)
      return items
  \<close>
  The result has the value or the exception, the file system, and the URLs fetched.
\<close>

definition scrape ::
  "nat \<Rightarrow> http \<Rightarrow> (json \<Rightarrow> string) \<Rightarrow> string \<Rightarrow> path \<Rightarrow> fs
     \<Rightarrow> ((error + json) \<times> fs \<times> json list) option" where
  "scrape n http dumps feed_url filename s =
     (case get_items http (JStr feed_url) of
        Inl e \<Rightarrow> Some (Inl e, s, [JStr feed_url])
      | Inr (items, prev) \<Rightarrow>
          (case scrape_loop n http feed_url items prev [JStr feed_url] of
             None \<Rightarrow> None
           | Some (Inl e, fetched) \<Rightarrow> Some (Inl e, s, fetched)
           | Some (Inr items', fetched) \<Rightarrow>
               (case save_json dumps items' filename s of
                  (Inl e, s') \<Rightarrow> Some (Inl e, s', fetched)
                | (Inr u, s') \<Rightarrow> Some (Inr items', s', fetched))))"


section \<open>The downloader\<close>

text \<open>
  \<^verbatim>\<open>
  def download(url, filename):
      filename.parents[0].mkdir(parents=True, exist_ok=True)
      with open(filename, 'wb') as f:
          resp = requests.get(url, cookies=SESSION_COOKIES)
          f.write(resp.content)
  \<close>
  The file is opened before the request is made.
\<close>

definition download :: "http \<Rightarrow> json \<Rightarrow> path \<Rightarrow> fs \<Rightarrow> (error + unit) \<times> fs" where
  "download http url filename s =
     (case parent filename of
        Inl e \<Rightarrow> (Inl e, s)
      | Inr d \<Rightarrow>
          (case mkdir s d of
             (Inl e, s1) \<Rightarrow> (Inl e, s1)
           | (Inr u, s1) \<Rightarrow>
               (case open_w s1 filename of
                  Inl e \<Rightarrow> (Inl e, s1)
                | Inr s2 \<Rightarrow>
                    (case requests_get http url of
                       Inl e \<Rightarrow> (Inl e, s2)
                     | Inr resp \<Rightarrow> (Inr (), write_file s2 filename (content resp))))))"

section \<open>The progress of the downloads\<close>

text \<open>The progress bar: \<^verbatim>\<open>tqdm(total=...)\<close> starts at zero, and \<^verbatim>\<open>pbar.update(k)\<close> adds \<open>k\<close>.\<close>

record pbar =
  pbar_total :: nat
  pbar_n :: nat

definition tqdm :: "nat \<Rightarrow> pbar" where
  "tqdm t = \<lparr>pbar_total = t, pbar_n = 0\<rparr>"

definition update :: "nat \<Rightarrow> pbar \<Rightarrow> pbar" where
  "update k bar = bar\<lparr>pbar_n := pbar_n bar + k\<rparr>"

text \<open>
  A future that is done: the position of its task in \<^verbatim>\<open>urls\<close>, and how \<^verbatim>\<open>download\<close> ended in
  the worker, with an exception or without.
\<close>

type_synonym future = "nat \<times> (error + unit)"

text \<open>
  The loop \<^verbatim>\<open>for _ in concurrent.futures.as_completed(futures): pbar.update(1)\<close> over the
  futures in the order in which they are done; the loop does not look at the future. The
  result lists the bar after each turn.
\<close>

fun as_completed_loop :: "future list \<Rightarrow> pbar \<Rightarrow> pbar list" where
  "as_completed_loop [] bar = []"
| "as_completed_loop (fut # rest) bar = update 1 bar # as_completed_loop rest (update 1 bar)"

text \<open>
  \<^verbatim>\<open>
  def download_urls(urls):
      with tqdm(total = len(urls)) as pbar:
          with concurrent.futures.ProcessPoolExecutor(max_workers = NUM_JOBS) as executor:
              futures = {executor.submit(download, url=url[0], filename=Path(url[1])): url
                         for url in urls}
              for _ in concurrent.futures.as_completed(futures):
                  pbar.update(1)
  \<close>
  What the workers do at the same time is not modelled. The order in which the futures are
  done is not fixed by the program and is the argument \<open>done\<close>.
\<close>

definition download_urls :: "(json \<times> string) list \<Rightarrow> future list \<Rightarrow> pbar list" where
  "download_urls urls done = as_completed_loop done (tqdm (length urls))"

section \<open>Values for the examples\<close>

text \<open>A file system with no file and no directory made.\<close>

definition empty_fs :: fs where
  "empty_fs = \<lparr>dirs = {}, files = (\<lambda>p. None)\<rparr>"

text \<open>A service that cannot be reached: every request raises.\<close>

definition unreachable :: http where
  "unreachable url = Inl RequestException"

text \<open>A response with status 200 whose body decodes to \<open>data\<close>.\<close>

definition page :: "json \<Rightarrow> response" where
  "page data = \<lparr>status_code = 200, content = [], json_body = Inr data\<rparr>"

text \<open>A feed of two pages that is a circle: the cursor of the second page is the feed.\<close>

definition circular_feed :: http where
  "circular_feed url =
     (if url = ''feed'' then
        Inr (page (JObj [(''_items'', JArr [JInt 1]),
                         (''_links'', JObj [(''prev'', JObj [(''href'', JStr ''feed?p=2'')])])]))
      else if url = ''feed?p=2'' then
        Inr (page (JObj [(''_items'', JArr [JInt 2, JInt 3]),
                         (''_links'', JObj [(''prev'', JObj [(''href'', JStr ''feed'')])])]))
      else Inl RequestException)"


section \<open>Properties\<close>

subsection \<open>Auxiliary facts\<close>

lemma key_in_keys: "(k \<in> fst ` set kvs) = (map_of kvs k \<noteq> None)"
  by (simp add: map_of_eq_None_iff)

lemma bind_Inr [simp]: "bind (Inr x) f = f x"
  by (simp add: bind_def)

lemma bind_Inl [simp]: "bind (Inl e) f = Inl e"
  by (simp add: bind_def)

lemma bind_eq_Inr_iff: "(bind r f = Inr y) = (\<exists>x. r = Inr x \<and> f x = Inr y)"
  by (cases r) simp_all

subsection \<open>Evaluation on the examples\<close>

lemma replicate_numeral: "replicate (numeral k) x = x # replicate (pred_numeral k) x"
  by (simp add: numeral_eq_Suc)

lemmas parse_defs =
  strptime_date_def strptime_time_def cut_at_def lower_def py_int_def is_digit_def
  is_digit19_def re_b_def re_f_def a_month_def make_datetime_def days_in_month_def
  is_leap_def replicate_numeral

lemmas resolve_defs =
  get_urls_def get_urls_item_def get_urls_attachment_def later_def datetime_fields_def
  strftime_def pad2_def dec_nat.simps replace_def Let_def

lemma strptime_date_1_Jul_2018:
  "strptime_date ''1-Jul-2018''
     = Inr \<lparr>year = 2018, month = 7, day = 1, hour = 0, minute = 0, second = 0, microsecond = 0\<rparr>"
  by (simp add: parse_defs)

lemma strptime_time_2018_01_01:
  "strptime_time ''2018-01-01T00:00:00.000Z''
     = Inr \<lparr>year = 2018, month = 1, day = 1, hour = 0, minute = 0, second = 0, microsecond = 0\<rparr>"
  by (simp add: parse_defs)

lemma strptime_time_2018_08_01:
  "strptime_time ''2018-08-01T00:00:00.000Z''
     = Inr \<lparr>year = 2018, month = 8, day = 1, hour = 0, minute = 0, second = 0, microsecond = 0\<rparr>"
  by (simp add: parse_defs)

lemma strptime_time_2019_01_01:
  "strptime_time ''2019-01-01T00:00:00.000Z''
     = Inr \<lparr>year = 2019, month = 1, day = 1, hour = 0, minute = 0, second = 0, microsecond = 0\<rparr>"
  by (simp add: parse_defs)

lemma strptime_time_2020_05_10:
  "strptime_time ''2020-05-10T00:00:00.000Z''
     = Inr \<lparr>year = 2020, month = 5, day = 10, hour = 0, minute = 0, second = 0, microsecond = 0\<rparr>"
  by (simp add: parse_defs)

subsection \<open>Facts about the resolver\<close>

lemma get_urls_items_append:
  "get_urls_items dest dt (xs @ ys) urls
     = bind (get_urls_items dest dt xs urls) (\<lambda>urls'. get_urls_items dest dt ys urls')"
proof (induction xs arbitrary: urls)
  case Nil
  show ?case by simp
next
  case (Cons x xs)
  show ?case
    by (cases "get_urls_item dest dt x urls") (simp_all add: Cons.IH)
qed

lemma get_urls_item_kept:
  assumes "item_time (JObj kvs) = Inr t"
    and "case dt of None \<Rightarrow> True | Some c \<Rightarrow> later t c"
  shows "get_urls_item dest dt (JObj kvs) urls =
           bind (py_getitem (JObj kvs) ''contents'') (\<lambda>contents.
           bind (py_get contents ''attachments'' (JObj [])) (\<lambda>attachments.
             if truthy attachments then
               bind (py_getitem (JObj kvs) ''headerSubtext'') (\<lambda>header.
               bind (py_replace (CHR ''/'') (CHR ''_'') header) (\<lambda>grp.
               bind (py_iter attachments) (\<lambda>atts.
               get_urls_attachments dest grp (strftime t) atts urls)))
             else Inr urls))"
proof (cases "py_getitem (JObj kvs) ''time''")
  case (Inl e)
  then show ?thesis using assms by (simp add: item_time_def)
next
  case (Inr tm)
  then show ?thesis using assms by (simp add: item_time_def get_urls_item_def)
qed

lemma get_urls_attachments_result:
  "get_urls_attachments dest grp ds atts urls = Inr r \<Longrightarrow>
     \<exists>tasks. r = urls @ tasks
       \<and> list_all2 (\<lambda>a task. get_urls_attachment dest grp ds a = Inr task) atts tasks"
proof (induction atts arbitrary: urls)
  case Nil
  then show ?case by simp
next
  case (Cons a rest)
  from Cons.prems obtain task where
    t: "get_urls_attachment dest grp ds a = Inr task" and
    r: "get_urls_attachments dest grp ds rest (urls @ [task]) = Inr r"
    by (auto simp add: bind_eq_Inr_iff)
  from Cons.IH [OF r] obtain tasks where
    "r = (urls @ [task]) @ tasks"
    "list_all2 (\<lambda>a task. get_urls_attachment dest grp ds a = Inr task) rest tasks"
    by blast
  with t have "r = urls @ (task # tasks)
      \<and> list_all2 (\<lambda>a task. get_urls_attachment dest grp ds a = Inr task) (a # rest) (task # tasks)"
    by simp
  then show ?case by blast
qed

lemma get_urls_attachment_shape:
  "get_urls_attachment dest grp ds a = Inr task \<Longrightarrow>
     \<exists>f. snd task = dest @ ''/'' @ grp @ ''/'' @ ds @ ''-'' @ f"
  by (auto simp add: get_urls_attachment_def bind_eq_Inr_iff)

lemma make_datetime_range:
  "make_datetime y m d H M S us = Inr t \<Longrightarrow>
     1 \<le> year t \<and> year t \<le> 9999 \<and> 1 \<le> month t \<and> month t \<le> 12 \<and> 1 \<le> day t \<and> day t \<le> 31"
  by (auto simp add: make_datetime_def days_in_month_def split: if_splits)

lemma strptime_time_range:
  "strptime_time s = Inr t \<Longrightarrow>
     1 \<le> year t \<and> year t \<le> 9999 \<and> 1 \<le> month t \<and> month t \<le> 12 \<and> 1 \<le> day t \<and> day t \<le> 31"
  unfolding strptime_time_def
  by (auto simp add: bind_eq_Inr_iff split: if_splits dest!: make_datetime_range)

lemma item_time_range:
  assumes "item_time item = Inr t"
  shows "1 \<le> year t \<and> year t \<le> 9999 \<and> 1 \<le> month t \<and> month t \<le> 12 \<and> 1 \<le> day t \<and> day t \<le> 31"
proof -
  from assms obtain tm where "strptime_item tm = Inr t"
    by (auto simp add: item_time_def bind_eq_Inr_iff)
  then obtain s where "strptime_time s = Inr t"
    by (cases tm) simp_all
  then show ?thesis by (rule strptime_time_range)
qed

lemma length_dec_nat_1: "n < 10 \<Longrightarrow> length (dec_nat n) = 1"
  by (simp add: dec_nat.simps)

lemma length_dec_nat_2: "10 \<le> n \<Longrightarrow> n < 100 \<Longrightarrow> length (dec_nat n) = 2"
  by (subst dec_nat.simps) (simp add: length_dec_nat_1)

lemma length_dec_nat_3: "100 \<le> n \<Longrightarrow> n < 1000 \<Longrightarrow> length (dec_nat n) = 3"
  by (subst dec_nat.simps) (simp add: length_dec_nat_2)

lemma length_dec_nat_4: "1000 \<le> n \<Longrightarrow> n < 10000 \<Longrightarrow> length (dec_nat n) = 4"
  by (subst dec_nat.simps) (simp add: length_dec_nat_3)

lemma length_pad2: "n < 100 \<Longrightarrow> length (pad2 n) = 2"
  by (simp add: pad2_def length_dec_nat_1 length_dec_nat_2)

lemma replace_absent: "a \<noteq> b \<Longrightarrow> a \<notin> set (replace a b s)"
  by (auto simp add: replace_def)

subsection \<open>The filename of an attachment\<close>

text \<open>
  Claim C1, as the specification states it, gives \<^verbatim>\<open>y_photo_1.jpg\<close> as the filename derived
  from the URL \<^verbatim>\<open>https://host/bucket/x/y/photo-1.jpg\<close>. The pieces of that URL between
  slashes are \<^verbatim>\<open>https:\<close>, the empty text, \<^verbatim>\<open>host\<close>, \<^verbatim>\<open>bucket\<close>, \<^verbatim>\<open>x\<close>, \<^verbatim>\<open>y\<close> and
  \<^verbatim>\<open>photo-1.jpg\<close>, so the fourth one is \<^verbatim>\<open>bucket\<close> and the code does not return the
  stated name.
\<close>

theorem get_name_from_url_example_counterexample:
  "get_name_from_url (JStr ''https://host/bucket/x/y/photo-1.jpg'') \<noteq> Inr ''y_photo_1.jpg''"
  by (simp add: replace_def)

text \<open>
  Claim C1, amended: for an attachment with a \<^verbatim>\<open>path\<close>, the filename at the end of the
  destination is \<^verbatim>\<open>metadata.filename\<close> when the attachment has a \<^verbatim>\<open>metadata\<close> dictionary
  with that key; when it has no \<^verbatim>\<open>metadata\<close>, or a \<^verbatim>\<open>metadata\<close> dictionary without
  \<^verbatim>\<open>filename\<close>, the filename is made of the pieces of the URL between slashes, from the
  fourth piece on, joined with underscores, with every hyphen replaced by an underscore.
  The URL \<^verbatim>\<open>https://host/bucket/x/y/photo-1.jpg\<close> gives \<^verbatim>\<open>bucket_x_y_photo_1.jpg\<close>.
\<close>

theorem get_urls_attachment_filename:
  "map_of kvs ''path'' = Some url \<Longrightarrow>
     (\<forall>md f. map_of kvs ''metadata'' = Some (JObj md) \<and> map_of md ''filename'' = Some f \<longrightarrow>
        get_urls_attachment dest grp ds (JObj kvs)
          = Inr (url, dest @ ''/'' @ grp @ ''/'' @ ds @ ''-'' @ py_str f))
   \<and> (\<forall>u. url = JStr u \<and>
          (map_of kvs ''metadata'' = None
           \<or> (\<exists>md. map_of kvs ''metadata'' = Some (JObj md) \<and> map_of md ''filename'' = None)) \<longrightarrow>
        get_urls_attachment dest grp ds (JObj kvs)
          = Inr (url, dest @ ''/'' @ grp @ ''/'' @ ds @ ''-''
                   @ replace (CHR ''-'') (CHR ''_'') (join ''_'' (drop 3 (split (CHR ''/'') u)))))
   \<and> get_name_from_url (JStr ''https://host/bucket/x/y/photo-1.jpg'')
        = Inr ''bucket_x_y_photo_1.jpg''"
  by (auto simp add: get_urls_attachment_def key_in_keys replace_def)

theorem get_urls_attachment_filename_witness:
  "get_urls_attachment ''out'' ''g'' ''05-10-2020''
     (JObj [(''path'', JStr ''https://host/bucket/x/y/photo-1.jpg''),
            (''metadata'', JObj [(''filename'', JStr ''img.png'')])])
     = Inr (JStr ''https://host/bucket/x/y/photo-1.jpg'', ''out/g/05-10-2020-img.png'')
   \<and> get_urls_attachment ''out'' ''g'' ''05-10-2020''
     (JObj [(''path'', JStr ''https://host/bucket/x/y/photo-1.jpg'')])
     = Inr (JStr ''https://host/bucket/x/y/photo-1.jpg'',
            ''out/g/05-10-2020-bucket_x_y_photo_1.jpg'')"
  using get_urls_attachment_filename
          [of "[(''path'', JStr ''https://host/bucket/x/y/photo-1.jpg''),
                (''metadata'', JObj [(''filename'', JStr ''img.png'')])]"
              "JStr ''https://host/bucket/x/y/photo-1.jpg''" "''out''" "''g''" "''05-10-2020''"]
        get_urls_attachment_filename
          [of "[(''path'', JStr ''https://host/bucket/x/y/photo-1.jpg'')]"
              "JStr ''https://host/bucket/x/y/photo-1.jpg''" "''out''" "''g''" "''05-10-2020''"]
  by (simp add: replace_def)

subsection \<open>The cutoff\<close>

lemma get_urls_item_time_error:
  assumes "item_time item = Inl e"
  shows "get_urls_item dest dt item urls = Inl e"
proof (cases "py_getitem item ''time''")
  case (Inl e')
  then show ?thesis using assms by (simp add: item_time_def get_urls_item_def)
next
  case (Inr tm)
  then show ?thesis using assms by (simp add: item_time_def get_urls_item_def)
qed

lemma get_urls_item_gate:
  assumes "item_time item = Inr t"
  shows "get_urls_item dest (Some dt) item urls
           = (if later t dt then get_urls_item dest None item urls else Inr urls)"
proof (cases "py_getitem item ''time''")
  case (Inl e')
  then show ?thesis using assms by (simp add: item_time_def)
next
  case (Inr tm)
  then show ?thesis using assms by (simp add: item_time_def get_urls_item_def)
qed

lemma get_urls_items_cutoff:
  "get_urls_items dest (Some dt) items urls
     = get_urls_items dest None (filter (\<lambda>item. \<not> dropped dt item) items) urls"
proof (induction items arbitrary: urls)
  case Nil
  show ?case by simp
next
  case (Cons item rest)
  have IH: "get_urls_items dest (Some dt) rest
              = get_urls_items dest None (filter (\<lambda>item. \<not> dropped dt item) rest)"
    by (rule ext) (rule Cons.IH)
  show ?case
  proof (cases "item_time item")
    case (Inl e)
    then have "\<not> dropped dt item"
      by (simp add: dropped_def)
    then show ?thesis
      using Inl by (simp add: get_urls_item_time_error)
  next
    case (Inr t)
    then have "dropped dt item = (\<not> later t dt)"
      by (simp add: dropped_def)
    then show ?thesis
      by (simp add: get_urls_item_gate [OF Inr] IH)
  qed
qed

lemma lex_less_irrefl: "\<not> lex_less xs xs"
  by (induction xs) auto

lemma later_irrefl: "\<not> later t t"
  by (simp add: later_def lex_less_irrefl)

lemma get_urls_item_no_cutoff:
  assumes "item_time item = Inr t"
  shows "get_urls_item dest None item urls = keep_item dest t item urls"
proof (cases "py_getitem item ''time''")
  case (Inl e')
  then show ?thesis using assms by (simp add: item_time_def)
next
  case (Inr tm)
  then show ?thesis using assms by (simp add: item_time_def get_urls_item_def keep_item_def)
qed

lemma get_urls_items_no_cutoff:
  "get_urls_items dest None items urls = keep_items dest items urls"
proof (induction items arbitrary: urls)
  case Nil
  show ?case by simp
next
  case (Cons item rest)
  have IH: "get_urls_items dest None rest = keep_items dest rest"
    by (rule ext) (rule Cons.IH)
  show ?case
  proof (cases "item_time item")
    case (Inl e)
    then show ?thesis
      by (simp add: get_urls_item_time_error)
  next
    case (Inr t)
    then show ?thesis
      by (simp add: get_urls_item_no_cutoff [OF Inr] IH)
  qed
qed

text \<open>
  Claim C2: without a cutoff (\<^verbatim>\<open>None\<close>, or the empty text) \<^verbatim>\<open>get_urls\<close> keeps every item of
  the list: its result is that of \<open>keep_items\<close> on the whole list, and each item whose time
  is read is handled by \<open>keep_item\<close>. With a cutoff its result is that of \<open>keep_items\<close> on
  the list from which the items whose time is not strictly later than the cutoff are
  removed, so it keeps exactly the items that are strictly later (an item whose time cannot
  be read raises in both). An item that is later is handled by \<open>keep_item\<close>; an item that
  is not later, or whose time is the cutoff itself, adds nothing. The witness is the
  example of the specification: of the items of 2018-01-01, 2018-08-01 and 2019-01-01, the
  cutoff 1-Jul-2018 keeps the last two, and no cutoff keeps the three.
\<close>

theorem get_urls_cutoff:
  "a \<noteq> [] \<Longrightarrow> strptime_date a = Inr dt \<Longrightarrow>
     get_urls dest (JArr items) (Some a)
       = get_urls dest (JArr (filter (\<lambda>item. \<not> dropped dt item) items)) None
   \<and> (\<forall>item t urls. item_time item = Inr t \<and> later t dt \<longrightarrow>
         get_urls_item dest (Some dt) item urls = get_urls_item dest None item urls)
   \<and> (\<forall>item t urls. item_time item = Inr t \<and> \<not> later t dt \<longrightarrow>
         get_urls_item dest (Some dt) item urls = Inr urls)
   \<and> (\<forall>item urls. item_time item = Inr dt \<longrightarrow>
         get_urls_item dest (Some dt) item urls = Inr urls)
   \<and> get_urls dest (JArr items) (Some []) = get_urls dest (JArr items) None
   \<and> get_urls dest (JArr items) None = keep_items dest items []
   \<and> get_urls dest (JArr items) (Some a)
       = keep_items dest (filter (\<lambda>item. \<not> dropped dt item) items) []
   \<and> (\<forall>item t urls. item_time item = Inr t \<longrightarrow>
         get_urls_item dest None item urls = keep_item dest t item urls)
   \<and> (\<forall>item t urls. item_time item = Inr t \<and> later t dt \<longrightarrow>
         get_urls_item dest (Some dt) item urls = keep_item dest t item urls)"
  by (simp add: get_urls_def get_urls_items_cutoff get_urls_item_gate later_irrefl
        get_urls_items_no_cutoff get_urls_item_no_cutoff)

theorem get_urls_cutoff_witness:
  "get_urls ''out''
     (JArr [JObj [(''time'', JStr ''2018-01-01T00:00:00.000Z''), (''headerSubtext'', JStr ''g''),
              (''contents'', JObj [(''attachments'',
                 JArr [JObj [(''path'', JStr ''u1''),
                             (''metadata'', JObj [(''filename'', JStr ''one.jpg'')])]])])],
            JObj [(''time'', JStr ''2018-08-01T00:00:00.000Z''), (''headerSubtext'', JStr ''g''),
              (''contents'', JObj [(''attachments'',
                 JArr [JObj [(''path'', JStr ''u2''),
                             (''metadata'', JObj [(''filename'', JStr ''two.jpg'')])]])])],
            JObj [(''time'', JStr ''2019-01-01T00:00:00.000Z''), (''headerSubtext'', JStr ''g''),
              (''contents'', JObj [(''attachments'',
                 JArr [JObj [(''path'', JStr ''u3''),
                             (''metadata'', JObj [(''filename'', JStr ''three.jpg'')])]])])]])
     (Some ''1-Jul-2018'')
   = Inr [(JStr ''u2'', ''out/g/08-01-2018-two.jpg''), (JStr ''u3'', ''out/g/01-01-2019-three.jpg'')]
   \<and> get_urls ''out''
     (JArr [JObj [(''time'', JStr ''2018-01-01T00:00:00.000Z''), (''headerSubtext'', JStr ''g''),
              (''contents'', JObj [(''attachments'',
                 JArr [JObj [(''path'', JStr ''u1''),
                             (''metadata'', JObj [(''filename'', JStr ''one.jpg'')])]])])],
            JObj [(''time'', JStr ''2018-08-01T00:00:00.000Z''), (''headerSubtext'', JStr ''g''),
              (''contents'', JObj [(''attachments'',
                 JArr [JObj [(''path'', JStr ''u2''),
                             (''metadata'', JObj [(''filename'', JStr ''two.jpg'')])]])])],
            JObj [(''time'', JStr ''2019-01-01T00:00:00.000Z''), (''headerSubtext'', JStr ''g''),
              (''contents'', JObj [(''attachments'',
                 JArr [JObj [(''path'', JStr ''u3''),
                             (''metadata'', JObj [(''filename'', JStr ''three.jpg'')])]])])]])
     None
   = Inr [(JStr ''u1'', ''out/g/01-01-2018-one.jpg''), (JStr ''u2'', ''out/g/08-01-2018-two.jpg''),
          (JStr ''u3'', ''out/g/01-01-2019-three.jpg'')]"
proof -
  have ne: "''1-Jul-2018'' \<noteq> []"
    by simp
  note step = get_urls_cutoff [OF ne strptime_date_1_Jul_2018, THEN conjunct1]
  have cutoff: "get_urls ''out''
     (JArr [JObj [(''time'', JStr ''2018-01-01T00:00:00.000Z''), (''headerSubtext'', JStr ''g''),
              (''contents'', JObj [(''attachments'',
                 JArr [JObj [(''path'', JStr ''u1''),
                             (''metadata'', JObj [(''filename'', JStr ''one.jpg'')])]])])],
            JObj [(''time'', JStr ''2018-08-01T00:00:00.000Z''), (''headerSubtext'', JStr ''g''),
              (''contents'', JObj [(''attachments'',
                 JArr [JObj [(''path'', JStr ''u2''),
                             (''metadata'', JObj [(''filename'', JStr ''two.jpg'')])]])])],
            JObj [(''time'', JStr ''2019-01-01T00:00:00.000Z''), (''headerSubtext'', JStr ''g''),
              (''contents'', JObj [(''attachments'',
                 JArr [JObj [(''path'', JStr ''u3''),
                             (''metadata'', JObj [(''filename'', JStr ''three.jpg'')])]])])]])
     (Some ''1-Jul-2018'')
   = Inr [(JStr ''u2'', ''out/g/08-01-2018-two.jpg''), (JStr ''u3'', ''out/g/01-01-2019-three.jpg'')]"
    apply (subst step)
    apply (simp add: dropped_def item_time_def later_def datetime_fields_def
             strptime_time_2018_01_01 strptime_time_2018_08_01 strptime_time_2019_01_01)
    apply (simp add: resolve_defs strptime_time_2018_08_01 strptime_time_2019_01_01)
    done
  have no_cutoff: "get_urls ''out''
     (JArr [JObj [(''time'', JStr ''2018-01-01T00:00:00.000Z''), (''headerSubtext'', JStr ''g''),
              (''contents'', JObj [(''attachments'',
                 JArr [JObj [(''path'', JStr ''u1''),
                             (''metadata'', JObj [(''filename'', JStr ''one.jpg'')])]])])],
            JObj [(''time'', JStr ''2018-08-01T00:00:00.000Z''), (''headerSubtext'', JStr ''g''),
              (''contents'', JObj [(''attachments'',
                 JArr [JObj [(''path'', JStr ''u2''),
                             (''metadata'', JObj [(''filename'', JStr ''two.jpg'')])]])])],
            JObj [(''time'', JStr ''2019-01-01T00:00:00.000Z''), (''headerSubtext'', JStr ''g''),
              (''contents'', JObj [(''attachments'',
                 JArr [JObj [(''path'', JStr ''u3''),
                             (''metadata'', JObj [(''filename'', JStr ''three.jpg'')])]])])]])
     None
   = Inr [(JStr ''u1'', ''out/g/01-01-2018-one.jpg''), (JStr ''u2'', ''out/g/08-01-2018-two.jpg''),
          (JStr ''u3'', ''out/g/01-01-2019-three.jpg'')]"
    by (simp add: resolve_defs strptime_time_2018_01_01 strptime_time_2018_08_01
          strptime_time_2019_01_01)
  show ?thesis
    by (rule conjI [OF cutoff no_cutoff])
qed

subsection \<open>Items without contents or attachments\<close>

text \<open>
  Claim C10: for an item that passes the cutoff, \<^verbatim>\<open>get_urls\<close> reads \<^verbatim>\<open>item['contents']\<close>
  without a test. An item without the key \<^verbatim>\<open>contents\<close> raises \<^verbatim>\<open>KeyError\<close>, and the error
  is the result of the whole loop when the items before it raise nothing. An item whose
  \<^verbatim>\<open>contents\<close> has no \<^verbatim>\<open>attachments\<close>, or an empty list of them, leaves the list of
  tasks as it is and raises nothing.
\<close>

theorem get_urls_item_contents:
  "item_time (JObj kvs) = Inr t \<Longrightarrow> (case dt of None \<Rightarrow> True | Some c \<Rightarrow> later t c) \<Longrightarrow>
     (map_of kvs ''contents'' = None \<longrightarrow>
        get_urls_item dest dt (JObj kvs) urls = Inl (KeyError ''contents'')
        \<and> (\<forall>pre post urls0. get_urls_items dest dt pre [] = Inr urls0 \<longrightarrow>
              get_urls_items dest dt (pre @ JObj kvs # post) [] = Inl (KeyError ''contents'')))
   \<and> (\<forall>cs. map_of kvs ''contents'' = Some (JObj cs)
            \<and> (map_of cs ''attachments'' = None \<or> map_of cs ''attachments'' = Some (JArr [])) \<longrightarrow>
        get_urls_item dest dt (JObj kvs) urls = Inr urls)"
  by (auto simp add: get_urls_item_kept get_urls_items_append)

theorem get_urls_item_contents_witness:
  "get_urls_item ''out'' None (JObj [(''time'', JStr ''2018-08-01T00:00:00.000Z'')]) []
     = Inl (KeyError ''contents'')
   \<and> get_urls_items ''out'' None
        ([JObj [(''time'', JStr ''2018-08-01T00:00:00.000Z''), (''contents'', JObj [])]]
         @ JObj [(''time'', JStr ''2018-08-01T00:00:00.000Z'')] # []) []
     = Inl (KeyError ''contents'')
   \<and> get_urls_item ''out'' None
        (JObj [(''time'', JStr ''2018-08-01T00:00:00.000Z''), (''contents'', JObj [])]) []
     = Inr []
   \<and> get_urls_item ''out'' None
        (JObj [(''time'', JStr ''2018-08-01T00:00:00.000Z''),
               (''contents'', JObj [(''attachments'', JArr [])])]) []
     = Inr []"
proof -
  let ?t = "\<lparr>year = 2018, month = 8, day = 1, hour = 0, minute = 0, second = 0,
             microsecond = 0\<rparr>"
  have g: "case None of None \<Rightarrow> True | Some c \<Rightarrow> later ?t c"
    by simp
  have t1: "item_time (JObj [(''time'', JStr ''2018-08-01T00:00:00.000Z'')]) = Inr ?t"
    by (simp add: item_time_def strptime_time_2018_08_01)
  have t2: "item_time (JObj [(''time'', JStr ''2018-08-01T00:00:00.000Z''),
                              (''contents'', JObj [])]) = Inr ?t"
    by (simp add: item_time_def strptime_time_2018_08_01)
  have t3: "item_time (JObj [(''time'', JStr ''2018-08-01T00:00:00.000Z''),
                              (''contents'', JObj [(''attachments'', JArr [])])]) = Inr ?t"
    by (simp add: item_time_def strptime_time_2018_08_01)
  note a = get_urls_item_contents [OF t1 g, of "''out''" "[]"]
  note b = get_urls_item_contents [OF t2 g, of "''out''" "[]"]
  note c = get_urls_item_contents [OF t3 g, of "''out''" "[]"]
  have pre: "get_urls_items ''out'' None
               [JObj [(''time'', JStr ''2018-08-01T00:00:00.000Z''), (''contents'', JObj [])]] []
             = Inr []"
    using b by simp
  show ?thesis
    using a b c pre by simp
qed

subsection \<open>The destination path\<close>

text \<open>
  Claim C5: for a kept item whose \<^verbatim>\<open>contents\<close> has a list of attachments and whose
  \<^verbatim>\<open>headerSubtext\<close> is a string, every task that \<^verbatim>\<open>get_urls\<close> adds has the destination
  \<open>root/group/MM-DD-YYYY-filename\<close>: the root is the global \<^verbatim>\<open>DESTINATION\<close>, the group is
  \<^verbatim>\<open>headerSubtext\<close> with every slash replaced by an underscore, so that it holds no slash,
  and the date is the month and the day of the item's time on two digits each, then the
  year, on four digits from the year 1000 on. The witness is the example of the
  specification: \<^verbatim>\<open>Room A/B\<close>, \<^verbatim>\<open>2020-05-10T00:00:00.000Z\<close>, \<^verbatim>\<open>img.png\<close> and the root
  \<^verbatim>\<open>out\<close> give \<^verbatim>\<open>out/Room A_B/05-10-2020-img.png\<close>.
\<close>

theorem get_urls_item_destination:
  "item_time (JObj kvs) = Inr t \<Longrightarrow> (case dt of None \<Rightarrow> True | Some c \<Rightarrow> later t c) \<Longrightarrow>
   map_of kvs ''contents'' = Some (JObj cs) \<Longrightarrow>
   map_of cs ''attachments'' = Some (JArr atts) \<Longrightarrow>
   map_of kvs ''headerSubtext'' = Some (JStr h) \<Longrightarrow>
   get_urls_item dest dt (JObj kvs) urls = Inr r \<Longrightarrow>
     (\<exists>tasks. r = urls @ tasks \<and>
        list_all2
          (\<lambda>a task. get_urls_attachment dest (replace (CHR ''/'') (CHR ''_'') h) (strftime t) a
                       = Inr task
             \<and> (\<exists>f. snd task = dest @ ''/'' @ replace (CHR ''/'') (CHR ''_'') h @ ''/''
                         @ pad2 (month t) @ ''-'' @ pad2 (day t) @ ''-'' @ dec_nat (year t)
                         @ ''-'' @ f))
          atts tasks)
   \<and> CHR ''/'' \<notin> set (replace (CHR ''/'') (CHR ''_'') h)
   \<and> length (pad2 (month t)) = 2 \<and> length (pad2 (day t)) = 2
   \<and> (1000 \<le> year t \<longrightarrow> length (dec_nat (year t)) = 4)"
proof -
  assume time: "item_time (JObj kvs) = Inr t"
    and gate: "case dt of None \<Rightarrow> True | Some c \<Rightarrow> later t c"
    and contents: "map_of kvs ''contents'' = Some (JObj cs)"
    and attachments: "map_of cs ''attachments'' = Some (JArr atts)"
    and header: "map_of kvs ''headerSubtext'' = Some (JStr h)"
    and result: "get_urls_item dest dt (JObj kvs) urls = Inr r"
  let ?grp = "replace (CHR ''/'') (CHR ''_'') h"
  let ?P = "\<lambda>a task. get_urls_attachment dest ?grp (strftime t) a = Inr task
             \<and> (\<exists>f. snd task = dest @ ''/'' @ ?grp @ ''/''
                         @ pad2 (month t) @ ''-'' @ pad2 (day t) @ ''-'' @ dec_nat (year t)
                         @ ''-'' @ f)"
  have loop: "get_urls_attachments dest ?grp (strftime t) atts urls = Inr r"
  proof (cases "atts = []")
    case True
    with result show ?thesis
      by (simp add: get_urls_item_kept [OF time gate] contents attachments)
  next
    case False
    with result show ?thesis
      by (simp add: get_urls_item_kept [OF time gate] contents attachments header)
  qed
  from get_urls_attachments_result [OF loop] obtain tasks where
    r: "r = urls @ tasks" and
    each: "list_all2 (\<lambda>a task. get_urls_attachment dest ?grp (strftime t) a = Inr task) atts tasks"
    by blast
  have "list_all2 ?P atts tasks"
    using each
  proof (rule list_all2_mono)
    fix a task
    assume a: "get_urls_attachment dest ?grp (strftime t) a = Inr task"
    from get_urls_attachment_shape [OF a] show "?P a task"
      using a by (simp add: strftime_def)
  qed
  with r have tasks: "\<exists>tasks. r = urls @ tasks \<and> list_all2 ?P atts tasks"
    by blast
  from item_time_range [OF time] have
    "month t < 100" "day t < 100" "year t < 10000"
    by simp_all
  then have shape: "length (pad2 (month t)) = 2 \<and> length (pad2 (day t)) = 2
      \<and> (1000 \<le> year t \<longrightarrow> length (dec_nat (year t)) = 4)"
    by (simp add: length_pad2 length_dec_nat_4)
  have "CHR ''/'' \<notin> set ?grp"
    by (rule replace_absent) simp
  with tasks shape show ?thesis
    by blast
qed

theorem get_urls_item_destination_witness:
  "get_urls_item ''out'' None
     (JObj [(''time'', JStr ''2020-05-10T00:00:00.000Z''),
            (''headerSubtext'', JStr ''Room A/B''),
            (''contents'', JObj [(''attachments'',
               JArr [JObj [(''path'', JStr ''https://h/b/c/x.png''),
                           (''metadata'', JObj [(''filename'', JStr ''img.png'')])]])])]) []
     = Inr [(JStr ''https://h/b/c/x.png'', ''out/Room A_B/05-10-2020-img.png'')]
   \<and> CHR ''/'' \<notin> set (replace (CHR ''/'') (CHR ''_'') ''Room A/B'')
   \<and> length (pad2 5) = 2 \<and> length (pad2 10) = 2 \<and> length (dec_nat 2020) = 4"
proof -
  let ?t = "\<lparr>year = 2020, month = 5, day = 10, hour = 0, minute = 0, second = 0,
             microsecond = 0\<rparr>"
  let ?att = "JObj [(''path'', JStr ''https://h/b/c/x.png''),
                    (''metadata'', JObj [(''filename'', JStr ''img.png'')])]"
  let ?cs = "[(''attachments'', JArr [?att])]"
  let ?kvs = "[(''time'', JStr ''2020-05-10T00:00:00.000Z''),
               (''headerSubtext'', JStr ''Room A/B''),
               (''contents'', JObj ?cs)]"
  have time: "item_time (JObj ?kvs) = Inr ?t"
    by (simp add: item_time_def strptime_time_2020_05_10)
  have gate: "case None of None \<Rightarrow> True | Some c \<Rightarrow> later ?t c"
    by simp
  have contents: "map_of ?kvs ''contents'' = Some (JObj ?cs)"
    by simp
  have attachments: "map_of ?cs ''attachments'' = Some (JArr [?att])"
    by simp
  have header: "map_of ?kvs ''headerSubtext'' = Some (JStr ''Room A/B'')"
    by simp
  have result: "get_urls_item ''out'' None (JObj ?kvs) []
                  = Inr [(JStr ''https://h/b/c/x.png'', ''out/Room A_B/05-10-2020-img.png'')]"
    by (simp add: get_urls_item_kept [OF time gate] get_urls_attachment_def strftime_def
          pad2_def dec_nat.simps replace_def)
  from get_urls_item_destination [OF time gate contents attachments header result]
  show ?thesis
    using result by simp
qed

subsection \<open>A download whose request fails\<close>




lemmas fs_defs =
  download_def Path_def parent_def mkdir_def prefixes_def resolve_def is_dir_def open_w_def
  write_file_def empty_fs_def unreachable_def





subsection \<open>Pages without items or without a cursor\<close>

lemma prev_link_absent:
  "map_of kvs ''_links'' = None
   \<or> (\<exists>ls. map_of kvs ''_links'' = Some (JObj ls) \<and>
         (map_of ls ''prev'' = None
          \<or> (\<exists>ps. map_of ls ''prev'' = Some (JObj ps) \<and> map_of ps ''href'' = None))) \<Longrightarrow>
   prev_link (JObj kvs) = Inr JNull"
  by (auto simp add: prev_link_def)

text \<open>
  Claim C9: for a response whose body is a dictionary, \<^verbatim>\<open>get_items\<close> raises when the key
  \<^verbatim>\<open>_items\<close> is absent: \<^verbatim>\<open>KeyError\<close> when the cursor can be read, the exception of the cursor
  otherwise. The exception ends \<^verbatim>\<open>scrape\<close>, on the first page and on a later one, and
  nothing is saved. When \<^verbatim>\<open>_items\<close> is there and \<^verbatim>\<open>_links\<close>, \<^verbatim>\<open>prev\<close> or \<^verbatim>\<open>href\<close> is
  absent, \<^verbatim>\<open>get_items\<close> returns the items with the cursor \<^verbatim>\<open>None\<close>; with that cursor the
  loop ends at once, and \<^verbatim>\<open>scrape\<close> goes on to save the items.
\<close>

theorem get_items_missing_keys:
  "requests_get http url = Inr resp \<Longrightarrow> json_body resp = Inr (JObj kvs) \<Longrightarrow>
     (map_of kvs ''_items'' = None \<longrightarrow>
        get_items http url
          = (case prev_link (JObj kvs) of Inl e \<Rightarrow> Inl e | Inr prev \<Rightarrow> Inl (KeyError ''_items''))
        \<and> (\<exists>e. get_items http url = Inl e
              \<and> (\<forall>n dumps u filename s. url = JStr u \<longrightarrow>
                    scrape n http dumps u filename s = Some (Inl e, s, [url]))
              \<and> (\<forall>n feed_url items fetched. truthy url \<and> JStr feed_url \<noteq> url \<longrightarrow>
                    scrape_loop (Suc n) http feed_url items url fetched
                      = Some (Inl e, fetched @ [url]))))
   \<and> (\<forall>items. map_of kvs ''_items'' = Some items \<and>
          (map_of kvs ''_links'' = None
           \<or> (\<exists>ls. map_of kvs ''_links'' = Some (JObj ls) \<and>
                 (map_of ls ''prev'' = None
                  \<or> (\<exists>ps. map_of ls ''prev'' = Some (JObj ps) \<and> map_of ps ''href'' = None)))) \<longrightarrow>
        get_items http url = Inr (items, JNull)
        \<and> (\<forall>n feed_url acc fetched.
              scrape_loop n http feed_url acc JNull fetched = Some (Inr acc, fetched))
        \<and> (\<forall>n dumps u filename s. url = JStr u \<longrightarrow>
              scrape n http dumps u filename s
                = (case save_json dumps items filename s of
                     (Inl e, s') \<Rightarrow> Some (Inl e, s', [url])
                   | (Inr x, s') \<Rightarrow> Some (Inr items, s', [url]))))"
proof -
  assume req: "requests_get http url = Inr resp" and body: "json_body resp = Inr (JObj kvs)"
  have gi: "get_items http url
              = bind (prev_link (JObj kvs)) (\<lambda>prev.
                bind (py_getitem (JObj kvs) ''_items'') (\<lambda>items. Inr (items, prev)))"
    by (simp add: get_items_def req body)
  show ?thesis
  proof (intro conjI impI allI)
    assume none: "map_of kvs ''_items'' = None"
    show c: "get_items http url
          = (case prev_link (JObj kvs) of Inl e \<Rightarrow> Inl e | Inr prev \<Rightarrow> Inl (KeyError ''_items''))"
      by (cases "prev_link (JObj kvs)") (simp_all add: gi none)
    then obtain e where e: "get_items http url = Inl e"
      by (cases "prev_link (JObj kvs)") simp_all
    show "\<exists>e. get_items http url = Inl e
              \<and> (\<forall>n dumps u filename s. url = JStr u \<longrightarrow>
                    scrape n http dumps u filename s = Some (Inl e, s, [url]))
              \<and> (\<forall>n feed_url items fetched. truthy url \<and> JStr feed_url \<noteq> url \<longrightarrow>
                    scrape_loop (Suc n) http feed_url items url fetched
                      = Some (Inl e, fetched @ [url]))"
      using e by (intro exI [where x = e]) (auto simp add: scrape_def)
  next
    fix items
    assume h: "map_of kvs ''_items'' = Some items \<and>
          (map_of kvs ''_links'' = None
           \<or> (\<exists>ls. map_of kvs ''_links'' = Some (JObj ls) \<and>
                 (map_of ls ''prev'' = None
                  \<or> (\<exists>ps. map_of ls ''prev'' = Some (JObj ps) \<and> map_of ps ''href'' = None))))"
    then have pl: "prev_link (JObj kvs) = Inr JNull"
      by (intro prev_link_absent) blast
    show g: "get_items http url = Inr (items, JNull)"
      using h by (simp add: gi pl)
    show "\<And>n feed_url acc fetched.
            scrape_loop n http feed_url acc JNull fetched = Some (Inr acc, fetched)"
      by simp
    show "scrape n http dumps u filename s
                = (case save_json dumps items filename s of
                     (Inl e, s') \<Rightarrow> Some (Inl e, s', [url])
                   | (Inr x, s') \<Rightarrow> Some (Inr items, s', [url]))"
      if u: "url = JStr u" for n dumps u filename s
      using g unfolding u by (simp add: scrape_def)
  qed
qed

theorem get_items_missing_keys_witness:
  "get_items (\<lambda>u. Inr (page (JObj [(''_links'', JObj [])]))) (JStr ''feed'')
     = Inl (KeyError ''_items'')
   \<and> scrape 0 (\<lambda>u. Inr (page (JObj [(''_links'', JObj [])]))) (\<lambda>v. []) ''feed''
       (Path ''./classdojo_output/data.json'') empty_fs
     = Some (Inl (KeyError ''_items''), empty_fs, [JStr ''feed''])
   \<and> get_items (\<lambda>u. Inr (page (JObj [(''_items'', JArr [JInt 1])]))) (JStr ''feed'')
     = Inr (JArr [JInt 1], JNull)"
proof -
  let ?h1 = "\<lambda>u::string. Inr (page (JObj [(''_links'', JObj [])])) :: error + response"
  let ?h2 = "\<lambda>u::string. Inr (page (JObj [(''_items'', JArr [JInt 1])])) :: error + response"
  have r1: "requests_get ?h1 (JStr ''feed'') = Inr (page (JObj [(''_links'', JObj [])]))"
    by simp
  have b1: "json_body (page (JObj [(''_links'', JObj [])])) = Inr (JObj [(''_links'', JObj [])])"
    by (simp add: page_def)
  have r2: "requests_get ?h2 (JStr ''feed'') = Inr (page (JObj [(''_items'', JArr [JInt 1])]))"
    by simp
  have b2: "json_body (page (JObj [(''_items'', JArr [JInt 1])]))
              = Inr (JObj [(''_items'', JArr [JInt 1])])"
    by (simp add: page_def)
  note a = get_items_missing_keys [OF r1 b1]
  note b = get_items_missing_keys [OF r2 b2]
  have g1: "get_items ?h1 (JStr ''feed'') = Inl (KeyError ''_items'')"
    using a by (simp add: prev_link_def)
  have s1: "scrape 0 ?h1 (\<lambda>v. []) ''feed'' (Path ''./classdojo_output/data.json'') empty_fs
              = Some (Inl (KeyError ''_items''), empty_fs, [JStr ''feed''])"
    using a g1 by auto
  have g2: "get_items ?h2 (JStr ''feed'') = Inr (JArr [JInt 1], JNull)"
    using b by simp
  show ?thesis
    using g1 s1 g2 by blast
qed

subsection \<open>The end of the traversal\<close>

lemma scrape_loop_stop:
  "\<not> truthy prev \<or> prev = JStr feed_url \<Longrightarrow>
     scrape_loop n http feed_url items prev fetched = Some (Inr items, fetched)"
  by auto



lemma scrape_loop_fetched:
  "scrape_loop n http feed_url items prev fetched = Some (r, f) \<Longrightarrow> \<exists>g. f = fetched @ g"
proof (induction n arbitrary: items prev fetched)
  case 0
  then show ?case by (auto split: if_splits)
next
  case (Suc m)
  show ?case
  proof (cases "truthy prev \<and> JStr feed_url \<noteq> prev")
    case False
    with Suc.prems show ?thesis by auto
  next
    case True
    show ?thesis
    proof (cases "get_items http prev")
      case (Inl e)
      with True Suc.prems show ?thesis by auto
    next
      case (Inr page)
      obtain new_items prev' where page: "page = (new_items, prev')"
        by (cases page)
      show ?thesis
      proof (cases "py_extend items new_items")
        case (Inl e)
        with True Inr page Suc.prems show ?thesis by auto
      next
        case ext: (Inr items')
        with True Inr page Suc.prems have
          "scrape_loop m http feed_url items' prev' (fetched @ [prev]) = Some (r, f)"
          by simp
        from Suc.IH [OF this] show ?thesis by auto
      qed
    qed
  qed
qed





subsection \<open>The items that the traversal returns\<close>

lemma scrape_loop_concat:
  "scrape_loop n http feed_url (JArr acc) prev fetched = Some (Inr result, fetched') \<Longrightarrow>
     \<exists>f. fetched' = fetched @ f
       \<and> (\<forall>pages. list_all2 (\<lambda>url its. \<exists>p. get_items http url = Inr (JArr its, p)) f pages \<longrightarrow>
              result = JArr (acc @ concat pages))"
proof (induction n arbitrary: acc prev fetched)
  case 0
  then have "result = JArr acc" "fetched' = fetched @ []"
    by (auto split: if_splits)
  then show ?case
    by (intro exI [where x = "[]"]) simp
next
  case (Suc m)
  show ?case
  proof (cases "truthy prev \<and> JStr feed_url \<noteq> prev")
    case False
    with Suc.prems have "result = JArr acc" "fetched' = fetched @ []"
      by auto
    then show ?thesis
      by (intro exI [where x = "[]"]) simp
  next
    case True
    show ?thesis
    proof (cases "get_items http prev")
      case (Inl e)
      with True Suc.prems show ?thesis by simp
    next
      case (Inr page)
      obtain new_items prev' where page: "page = (new_items, prev')"
        by (cases page)
      show ?thesis
      proof (cases "py_iter new_items")
        case (Inl e)
        with True Inr page Suc.prems show ?thesis by simp
      next
        case ys: (Inr ys)
        with True Inr page Suc.prems have
          "scrape_loop m http feed_url (JArr (acc @ ys)) prev' (fetched @ [prev])
             = Some (Inr result, fetched')"
          by simp
        from Suc.IH [OF this] obtain f where
          f: "fetched' = (fetched @ [prev]) @ f" and
          r: "\<forall>pages. list_all2 (\<lambda>url its. \<exists>p. get_items http url = Inr (JArr its, p)) f pages \<longrightarrow>
                result = JArr ((acc @ ys) @ concat pages)"
          by blast
        have "\<forall>pages. list_all2 (\<lambda>url its. \<exists>p. get_items http url = Inr (JArr its, p))
                 (prev # f) pages \<longrightarrow> result = JArr (acc @ concat pages)"
        proof (intro allI impI)
          fix pages
          assume "list_all2 (\<lambda>url its. \<exists>p. get_items http url = Inr (JArr its, p)) (prev # f) pages"
          then obtain its rest where
            pages: "pages = its # rest" and
            its: "\<exists>p. get_items http prev = Inr (JArr its, p)" and
            rest: "list_all2 (\<lambda>url its. \<exists>p. get_items http url = Inr (JArr its, p)) f rest"
            by (auto simp add: list_all2_Cons1)
          from its Inr page have "new_items = JArr its"
            by auto
          with ys have "ys = its"
            by simp
          with r rest pages show "result = JArr (acc @ concat pages)"
            by simp
        qed
        with f show ?thesis
          by (intro exI [where x = "prev # f"]) simp
      qed
    qed
  qed
qed

lemma save_json_written:
  "save_json dumps v filename s = (Inr u, s') \<Longrightarrow> files s' (resolve filename) = Some (dumps v)"
  by (auto simp add: save_json_def write_file_def open_w_def
        split: sum.splits prod.splits if_splits)

text \<open>
  Claim C4: when \<^verbatim>\<open>scrape\<close> returns a value and the \<^verbatim>\<open>_items\<close> of every page it fetched is a
  list, the value is the concatenation of those lists in the order of the fetches, the page
  of the feed URL first; its length is the sum of their lengths; and the same value, passed
  through the serialiser, is the content of the snapshot file in the file system that
  \<^verbatim>\<open>scrape\<close> leaves. The witness takes \<^verbatim>\<open>repr\<close> for the serialiser; the theorem holds for
  every serialiser.
\<close>

theorem scrape_concatenates:
  "scrape n http dumps feed_url filename s = Some (Inr result, s', fetched) \<Longrightarrow>
   list_all2 (\<lambda>url its. \<exists>p. get_items http url = Inr (JArr its, p)) fetched pages \<Longrightarrow>
     result = JArr (concat pages)
   \<and> (\<exists>xs. result = JArr xs \<and> length xs = sum_list (map length pages))
   \<and> hd fetched = JStr feed_url
   \<and> save_json dumps result filename s = (Inr (), s')
   \<and> files s' (resolve filename) = Some (dumps result)"
proof -
  assume run: "scrape n http dumps feed_url filename s = Some (Inr result, s', fetched)"
    and pages: "list_all2 (\<lambda>url its. \<exists>p. get_items http url = Inr (JArr its, p)) fetched pages"
  from run obtain items prev where
    g: "get_items http (JStr feed_url) = Inr (items, prev)"
    by (cases "get_items http (JStr feed_url)") (auto simp add: scrape_def)
  from run g obtain r f where
    l: "scrape_loop n http feed_url items prev [JStr feed_url] = Some (r, f)"
    by (cases "scrape_loop n http feed_url items prev [JStr feed_url]") (auto simp add: scrape_def)
  from run g l obtain items' where r: "r = Inr items'"
    by (cases r) (auto simp add: scrape_def)
  obtain x s1 where sv: "save_json dumps items' filename s = (x, s1)"
    by (cases "save_json dumps items' filename s")
  from run g l r sv have res: "x = Inr ()" "result = items'" "s' = s1" "fetched = f"
    by (cases x; simp add: scrape_def)+
  from scrape_loop_fetched [OF l [unfolded r]] obtain f' where f': "f = [JStr feed_url] @ f'"
    by blast
  with pages res obtain its0 rest where
    p: "pages = its0 # rest" and
    i0: "\<exists>p. get_items http (JStr feed_url) = Inr (JArr its0, p)" and
    rest: "list_all2 (\<lambda>url its. \<exists>p. get_items http url = Inr (JArr its, p)) f' rest"
    by (auto simp add: list_all2_Cons1)
  from i0 g have items: "items = JArr its0"
    by auto
  from scrape_loop_concat [OF l [unfolded r items]] f' rest have "items' = JArr (its0 @ concat rest)"
    by auto
  with p res have c: "result = JArr (concat pages)"
    by simp
  from sv res have saved: "save_json dumps result filename s = (Inr (), s')"
    by simp
  from save_json_written [OF saved] c f' res saved show ?thesis
    by (simp add: length_concat)
qed



theorem scrape_concatenates_witness:
  "scrape 1 circular_feed py_repr ''feed'' (Path ''./classdojo_output/data.json'') empty_fs
     = Some (Inr (JArr [JInt 1, JInt 2, JInt 3]),
             \<lparr>dirs = {Path ''classdojo_output''},
              files = (\<lambda>p. None)(Path ''classdojo_output/data.json'' \<mapsto> ''[1, 2, 3]'')\<rparr>,
             [JStr ''feed'', JStr ''feed?p=2''])
   \<and> JArr [JInt 1, JInt 2, JInt 3] = JArr (concat [[JInt 1], [JInt 2, JInt 3]])
   \<and> py_repr (JArr [JInt 1, JInt 2, JInt 3]) = ''[1, 2, 3]''"
proof -
  let ?s' = "\<lparr>dirs = {Path ''classdojo_output''},
              files = (\<lambda>p. None)(Path ''classdojo_output/data.json'' \<mapsto> ''[1, 2, 3]'')\<rparr>"
  have run: "scrape 1 circular_feed py_repr ''feed'' (Path ''./classdojo_output/data.json'') empty_fs
     = Some (Inr (JArr [JInt 1, JInt 2, JInt 3]), ?s', [JStr ''feed'', JStr ''feed?p=2''])"
    by (simp add: scrape_def get_items_def prev_link_def circular_feed_def page_def
          save_json_def fs_defs dec_int_def dec_nat.simps)
  have pages: "list_all2 (\<lambda>url its. \<exists>p. get_items circular_feed url = Inr (JArr its, p))
                 [JStr ''feed'', JStr ''feed?p=2''] [[JInt 1], [JInt 2, JInt 3]]"
    by (simp add: get_items_def prev_link_def circular_feed_def page_def)
  from scrape_concatenates [OF run pages] run
  show ?thesis
    by (simp add: dec_int_def dec_nat.simps)
qed

subsection \<open>The progress counter\<close>

lemma upt_0_Suc: "[0..<Suc k] = 0 # map Suc [0..<k]"
  by (simp only: map_Suc_upt upt_conv_Cons [OF zero_less_Suc])

lemma as_completed_loop_counts:
  "map pbar_n (as_completed_loop done bar) = map (\<lambda>i. pbar_n bar + Suc i) [0..<length done]"
proof (induction "done" arbitrary: bar)
  case Nil
  show ?case by simp
next
  case (Cons fut rest)
  show ?case
    by (simp add: Cons.IH update_def upt_0_Suc comp_def del: upt_Suc)
qed

lemma as_completed_loop_total:
  "bar' \<in> set (as_completed_loop done bar) \<Longrightarrow> pbar_total bar' = pbar_total bar"
  by (induction "done" arbitrary: bar) (auto simp add: update_def)

lemma all_done_length:
  assumes "distinct (map fst done)" and "set (map fst done) = {..<N}"
  shows "length done = N"
proof -
  have "length done = length (map fst done)"
    by simp
  also have "\<dots> = card (set (map fst done))"
    using assms(1) by (simp only: distinct_card)
  also have "\<dots> = N"
    using assms(2) by simp
  finally show ?thesis .
qed

text \<open>
  Claim C8: when every submitted task is done once, in whatever order and however it ended,
  the counter of the progress bar is 1 after the first future, 2 after the second, and so
  on: one more for each future, whether its task raised or not. The total of the bar is the
  number of tasks throughout. Counted from its start at 0 the counter increases strictly,
  ends at the number of tasks, and has that value exactly once.
\<close>

theorem download_urls_progress:
  "distinct (map fst done) \<Longrightarrow> set (map fst done) = {..<length urls} \<Longrightarrow>
     map pbar_n (download_urls urls done) = [1..<Suc (length urls)]
   \<and> length (download_urls urls done) = length urls
   \<and> (\<forall>bar \<in> set (download_urls urls done). pbar_total bar = length urls)
   \<and> sorted_wrt (<) (0 # map pbar_n (download_urls urls done))
   \<and> last (0 # map pbar_n (download_urls urls done)) = length urls
   \<and> length (filter (\<lambda>v. v = length urls) (0 # map pbar_n (download_urls urls done))) = 1"
proof -
  assume d: "distinct (map fst done)" and a: "set (map fst done) = {..<length urls}"
  have len: "length done = length urls"
    by (rule all_done_length [OF d a])
  have c0: "map pbar_n (download_urls urls done) = map Suc [0..<length urls]"
    by (simp add: download_urls_def as_completed_loop_counts tqdm_def len)
  then have counts: "map pbar_n (download_urls urls done) = [1..<Suc (length urls)]"
    by (simp only: map_Suc_upt One_nat_def)
  have l: "length (download_urls urls done) = length urls"
    using arg_cong [OF c0, of length] by simp
  have t: "\<forall>bar \<in> set (download_urls urls done). pbar_total bar = length urls"
    by (auto simp add: download_urls_def tqdm_def dest: as_completed_loop_total)
  have z: "0 # [1..<Suc (length urls)] = [0..<Suc (length urls)]"
    by (simp only: upt_0_Suc map_Suc_upt One_nat_def)
  have s: "sorted_wrt (<) (0 # map pbar_n (download_urls urls done))"
    by (simp only: counts z sorted_wrt_upt)
  have e: "last (0 # map pbar_n (download_urls urls done)) = length urls"
    by (simp only: counts z) simp
  have "filter (\<lambda>v. v = k) [0..<Suc k] = [k]" for k :: nat
    by (simp add: filter_empty_conv)
  then have o: "length (filter (\<lambda>v. v = length urls) (0 # map pbar_n (download_urls urls done))) = 1"
    by (simp only: counts z) simp
  from counts l t s e o show ?thesis
    by blast
qed


theorem download_urls_progress_witness:
  "map pbar_n
     (download_urls
        [(JStr ''u1'', ''out/g/a''), (JStr ''u2'', ''out/g/b''), (JStr ''u3'', ''out/g/c'')]
        [(Suc (Suc 0), Inr ()), (0, Inl RequestException), (Suc 0, Inr ())])
     = [1, 2, 3]"
proof -
  let ?urls = "[(JStr ''u1'', ''out/g/a''), (JStr ''u2'', ''out/g/b''), (JStr ''u3'', ''out/g/c'')]"
  let ?done = "[(Suc (Suc 0), Inr ()), (0, Inl RequestException), (Suc 0, Inr ())]
                 :: (nat \<times> (error + unit)) list"
  have d: "distinct (map fst ?done)"
    by simp
  have a: "set (map fst ?done) = {..<length ?urls}"
    by auto
  from download_urls_progress [OF d a, THEN conjunct1]
  show ?thesis
    by (simp add: upt_conv_Cons)
qed

end
